theory Spec2Isabelle
  imports Main "HOL-Library.Sublist"
begin

section \<open>Filename patterns\<close>

text \<open>
  The detector matches file names with \<^verbatim>\<open>re.match(pattern, file.name, re.IGNORECASE)\<close>.
  The patterns of the table use anchors, literal characters, the wildcard \<^verbatim>\<open>.\<close>, one
  character class, groups with alternatives, \<^verbatim>\<open>*\<close> and \<^verbatim>\<open>?\<close>. A pattern is kept as
  a syntax tree. Names are strings of 8-bit characters (the code points below 256); the
  patterns hold ASCII characters only, so on such names the case-insensitive comparison
  is equality after folding the letters A to Z to lower case.
\<close>

datatype regex =
    Bol                 \<comment> \<open>\<^verbatim>\<open>^\<close>\<close>
  | Eol                 \<comment> \<open>\<^verbatim>\<open>$\<close>\<close>
  | Chr char            \<comment> \<open>a literal character, escaped or not\<close>
  | Dot                 \<comment> \<open>\<^verbatim>\<open>.\<close>\<close>
  | Class "char list"   \<comment> \<open>\<^verbatim>\<open>[...]\<close>\<close>
  | Cat regex regex
  | Alt regex regex     \<comment> \<open>\<^verbatim>\<open>a|b\<close>\<close>
  | Star regex          \<comment> \<open>\<^verbatim>\<open>a*\<close>\<close>
  | Opt regex           \<comment> \<open>\<^verbatim>\<open>a?\<close>\<close>
  | Empty

abbreviation newline :: char where
  "newline \<equiv> CHR 0x0A"

definition lower :: "char \<Rightarrow> char" where
  "lower c =
     (case map_of (zip ''ABCDEFGHIJKLMNOPQRSTUVWXYZ'' ''abcdefghijklmnopqrstuvwxyz'') c of
        None \<Rightarrow> c
      | Some l \<Rightarrow> l)"

text \<open>
  \<open>consume ok r\<close> is one character step from the remaining input \<open>r\<close>: the rest after
  its first character when that character is accepted, nothing otherwise.
\<close>

definition consume :: "(char \<Rightarrow> bool) \<Rightarrow> string \<Rightarrow> string list" where
  "consume ok r = (case r of [] \<Rightarrow> [] | x # xs \<Rightarrow> if ok x then [xs] else [])"

text \<open>
  \<open>ends p s rs\<close>: the subject string is \<open>s\<close>, and \<open>rs\<close> lists the suffixes of \<open>s\<close> still
  to be read at the positions where matching \<open>p\<close> may start; the result lists the
  suffixes left where a match of \<open>p\<close> may end. Without \<^verbatim>\<open>re.MULTILINE\<close>, \<^verbatim>\<open>^\<close> holds at
  the start of the subject only, and \<^verbatim>\<open>$\<close> holds at its end and also just before a
  newline that is its last character. Without \<^verbatim>\<open>re.DOTALL\<close>, \<^verbatim>\<open>.\<close> accepts every
  character but the newline. For a repetition, \<open>rounds step n q\<close> adds to the positions \<open>q\<close>
  those reached by up to \<open>n\<close> further matches of the body; a round that reaches a new
  position reads at least one character, so \<open>Suc (length s)\<close> rounds reach every end
  position.
\<close>

primrec rounds :: "(string list \<Rightarrow> string list) \<Rightarrow> nat \<Rightarrow> string list \<Rightarrow> string list" where
  "rounds step 0 q = q"
| "rounds step (Suc n) q = rounds step n (List.union q (step q))"

primrec ends :: "regex \<Rightarrow> string \<Rightarrow> string list \<Rightarrow> string list" where
  "ends Bol s rs = [r \<leftarrow> rs. length r = length s]"
| "ends Eol s rs = [r \<leftarrow> rs. r = [] \<or> r = [newline]]"
| "ends (Chr c) s rs = concat (map (consume (\<lambda>x. lower x = lower c)) rs)"
| "ends Dot s rs = concat (map (consume (\<lambda>x. x \<noteq> newline)) rs)"
| "ends (Class cs) s rs = concat (map (consume (\<lambda>x. lower x \<in> set (map lower cs))) rs)"
| "ends (Cat a b) s rs = ends b s (ends a s rs)"
| "ends (Alt a b) s rs = List.union (ends a s rs) (ends b s rs)"
| "ends (Star a) s rs = rounds (ends a s) (Suc (length s)) rs"
| "ends (Opt a) s rs = List.union (ends a s rs) rs"
| "ends Empty s rs = rs"

text \<open>
  \<^verbatim>\<open>re.match\<close> asks for a match that starts at the beginning of the subject and may end
  anywhere; \<^verbatim>\<open>re.fullmatch\<close> asks for one that ends at the end of the subject.
\<close>

definition re_match :: "regex \<Rightarrow> string \<Rightarrow> bool" where
  "re_match p s = (ends p s [s] \<noteq> [])"

definition re_fullmatch :: "regex \<Rightarrow> string \<Rightarrow> bool" where
  "re_fullmatch p s = ([] \<in> set (ends p s [s]))"

definition str :: "string \<Rightarrow> regex" where
  "str cs = foldr (\<lambda>c p. Cat (Chr c) p) cs Empty"

definition seq :: "regex list \<Rightarrow> regex" where
  "seq ps = foldr Cat ps Empty"

section \<open>The table of build systems\<close>

text \<open>
  \<^verbatim>\<open>self.build_systems\<close>, a dictionary in insertion order. An escaped dot \<^verbatim>\<open>\.\<close> is the
  literal character inside \<open>str\<close>; the two unescaped dots are \<open>Dot\<close>.
\<close>

definition build_systems :: "(string \<times> regex list) list" where
  "build_systems =
    [(''Maven'', [seq [Bol, str ''pom.xml'', Eol]]),
     (''Gradle'', [seq [Bol, str ''build.gradle'', Opt (str ''.kts''), Eol],
                  seq [Bol, str ''settings.gradle'', Eol],
                  seq [Bol, str ''gradlew'', Eol]]),
     (''npm'', [seq [Bol, str ''package'', Opt (str ''-lock''), str ''.json'', Eol],
               seq [Bol, str ''npm-shrinkwrap.json'', Eol]]),
     (''Yarn'', [seq [Bol, str ''yarn.lock'', Eol]]),
     (''Python/pip'', [seq [Bol, str ''requirements'', Star Dot, str ''.txt'', Eol],
                      seq [Bol, str ''setup.py'', Eol],
                      seq [Bol, str ''pyproject.toml'', Eol]]),
     (''Poetry'', [seq [Bol, str ''poetry.lock'', Eol]]),
     (''CMake'', [seq [Bol, str ''CMakeLists.txt'', Eol]]),
     (''Make'', [seq [Bol, Class ''Mm'', str ''akefile'', Eol]]),
     (''Cargo (Rust)'', [seq [Bol, str ''Cargo.'', Alt (str ''toml'') (str ''lock''), Eol]]),
     (''Composer (PHP)'', [seq [Bol, str ''composer.'', Alt (str ''json'') (str ''lock''), Eol]]),
     (''Bazel'', [seq [Bol, str ''WORKSPACE'', Eol],
                 seq [Bol, str ''BUILD'', Opt (str ''.bazel''), Eol]]),
     (''Ant'', [seq [Bol, str ''build.xml'', Eol]]),
     (''sbt (Scala)'', [seq [Bol, str ''build.sbt'', Eol]]),
     (''Go Modules'', [seq [Bol, str ''go.'', Alt (str ''mod'') (str ''sum''), Eol]]),
     (''Lazarus'', [seq [Bol, Star Dot, str ''.'',
                        Alt (str ''lpi'') (Alt (str ''lpr'') (str ''lpk'')), Eol]]),
     (''SCons'', [seq [Bol, str ''SConstruct'', Eol],
                 seq [Bol, str ''SConscript'', Eol]])]"

section \<open>Paths and the directory tree\<close>

text \<open>
  A \<^verbatim>\<open>pathlib.Path\<close> is its parts, with a flag for the leading slash of an absolute
  path: \<^verbatim>\<open>Path('.')\<close> is relative and has no part. The name of an entry of a listing
  is never empty, \<^verbatim>\<open>.\<close> or \<^verbatim>\<open>..\<close> and holds no slash, so joining it to a path
  appends one part.
\<close>

datatype path = Path (absolute: bool) (parts: "string list")

abbreviation here :: path where
  "here \<equiv> Path False []"

fun joinpath :: "path \<Rightarrow> string \<Rightarrow> path" where
  "joinpath (Path a ps) n = Path a (ps @ [n])"

fun name :: "path \<Rightarrow> string" where
  "name (Path a ps) = (if ps = [] then [] else last ps)"

fun join :: "string list \<Rightarrow> string" where
  "join [] = []"
| "join [x] = x"
| "join (x # y # ys) = x @ ''/'' @ join (y # ys)"

fun path_str :: "path \<Rightarrow> string" where
  "path_str (Path a ps) =
     (if a then ''/'' @ join ps else if ps = [] then ''.'' else join ps)"

text \<open>The value \<^verbatim>\<open>json.load\<close> returns: an object is a dictionary in insertion order.\<close>

datatype json =
    JNull
  | JBool bool
  | JNum int
  | JStr string
  | JArr "json list"
  | JObj "(string \<times> json) list"

text \<open>
  What opening a regular file in text mode and handing it to \<^verbatim>\<open>json.load\<close> does:
  \<^verbatim>\<open>open\<close> is refused, the bytes are not text in the encoding in use, the text is not
  a JSON document, or the document is loaded.
\<close>

datatype content = Unreadable | Undecodable | Malformed | Json json

text \<open>
  What a path resolves to, symbolic links followed: a regular file, a directory with
  its entries in the order the system lists them (their names distinct), a directory
  the user has no permission on, or nothing (a missing path, a dangling link).
\<close>

datatype node =
    File content
  | Dir "(string \<times> node) list"
  | Denied
  | NoEntry

datatype error =
    FileNotFoundError
  | NotADirectoryError
  | PermissionError
  | IsADirectoryError
  | UnicodeDecodeError
  | AttributeError

fun iterdir :: "path \<Rightarrow> node \<Rightarrow> error + (path \<times> node) list" where
  "iterdir p (Dir es) = Inr (map (\<lambda>(n, x). (joinpath p n, x)) es)"
| "iterdir p (File c) = Inl NotADirectoryError"
| "iterdir p Denied = Inl PermissionError"
| "iterdir p NoEntry = Inl FileNotFoundError"

fun is_file :: "path \<times> node \<Rightarrow> bool" where
  "is_file (p, File c) = True"
| "is_file (p, x) = False"

fun is_dir :: "path \<times> node \<Rightarrow> bool" where
  "is_dir (p, Dir es) = True"
| "is_dir (p, Denied) = True"
| "is_dir (p, x) = False"

section \<open>detect\_build\_system\<close>

record detected =
  system :: string
  found_files :: "path list"

text \<open>The loop over the immediate subdirectories; an error of a listing leaves the loop.\<close>

fun scan_subdirs :: "(path \<times> node) list \<Rightarrow> path list \<Rightarrow> error + path list" where
  "scan_subdirs [] all_files = Inr all_files"
| "scan_subdirs (subdir # rest) all_files =
     (if is_dir subdir then
        (case iterdir (fst subdir) (snd subdir) of
           Inl e \<Rightarrow> Inl e
         | Inr fs \<Rightarrow> scan_subdirs rest (all_files @ map fst (filter is_file fs)))
      else scan_subdirs rest all_files)"

definition collect_files :: "path \<Rightarrow> node \<Rightarrow> error + path list" where
  "collect_files dir_path root =
     (case iterdir dir_path root of
        Inl e \<Rightarrow> Inl e
      | Inr entries \<Rightarrow>
          (case iterdir dir_path root of
             Inl e \<Rightarrow> Inl e
           | Inr subdirs \<Rightarrow> scan_subdirs subdirs (map fst (filter is_file entries))))"

text \<open>The loop over the patterns of one system, left at the first pattern with a match.\<close>

fun check_patterns :: "string \<Rightarrow> regex list \<Rightarrow> path list \<Rightarrow> detected list" where
  "check_patterns sys [] all_files = []"
| "check_patterns sys (pattern # patterns) all_files =
     (let matches = [file \<leftarrow> all_files. re_match pattern (name file)]
      in if matches \<noteq> []
         then [\<lparr>system = sys, found_files = matches\<rparr>]
         else check_patterns sys patterns all_files)"

fun check_systems :: "(string \<times> regex list) list \<Rightarrow> path list \<Rightarrow> detected list" where
  "check_systems [] all_files = []"
| "check_systems ((sys, patterns) # table) all_files =
     check_patterns sys patterns all_files @ check_systems table all_files"

definition detect_build_system :: "path \<Rightarrow> node \<Rightarrow> error + detected list" where
  "detect_build_system directory root =
     (case collect_files directory root of
        Inl e \<Rightarrow> Inl e
      | Inr all_files \<Rightarrow> Inr (check_systems build_systems all_files))"

section \<open>detect\_package\_type\<close>

text \<open>
  The entry of a directory under a name, as \<^verbatim>\<open>stat\<close> resolves it. Below a path that is
  missing or is no directory there is nothing; below a directory without permission
  \<^verbatim>\<open>stat\<close> is refused, which \<^verbatim>\<open>Path.exists\<close> does not catch.
\<close>

fun child :: "node \<Rightarrow> string \<Rightarrow> error + node" where
  "child (Dir es) n = Inr (case map_of es n of None \<Rightarrow> NoEntry | Some x \<Rightarrow> x)"
| "child (File c) n = Inr NoEntry"
| "child NoEntry n = Inr NoEntry"
| "child Denied n = Inl PermissionError"

text \<open>\<^verbatim>\<open>data.get(key, default)\<close> and \<^verbatim>\<open>data.keys()\<close>: only a dictionary has them.\<close>

fun py_get :: "json \<Rightarrow> string \<Rightarrow> json \<Rightarrow> error + json" where
  "py_get (JObj kvs) k d = Inr (case map_of kvs k of None \<Rightarrow> d | Some v \<Rightarrow> v)"
| "py_get data k d = Inl AttributeError"

fun py_keys :: "json \<Rightarrow> error + string list" where
  "py_keys (JObj kvs) = Inr (map fst kvs)"
| "py_keys data = Inl AttributeError"

text \<open>
  The three assignments after \<^verbatim>\<open>json.load\<close>. An exception raised here is no
  \<^verbatim>\<open>JSONDecodeError\<close>, so it leaves the function.
\<close>

definition package_fields :: "json \<Rightarrow> error + (string \<times> json) list" where
  "package_fields data =
     (case py_get data ''name'' (JStr ''Unknown'') of
        Inl e \<Rightarrow> Inl e
      | Inr nm \<Rightarrow>
     (case py_get data ''version'' (JStr ''Unknown'') of
        Inl e \<Rightarrow> Inl e
      | Inr ver \<Rightarrow>
     (case py_get data ''dependencies'' (JObj []) of
        Inl e \<Rightarrow> Inl e
      | Inr deps \<Rightarrow>
     (case py_keys deps of
        Inl e \<Rightarrow> Inl e
      | Inr ks \<Rightarrow>
          Inr [(''name'', nm), (''version'', ver),
               (''dependencies'', JArr (map JStr ks))]))))"

text \<open>
  The result is the dictionary \<^verbatim>\<open>package_info\<close> in insertion order. Only
  \<^verbatim>\<open>json.JSONDecodeError\<close> is caught.
\<close>

definition detect_package_type :: "node \<Rightarrow> error + (string \<times> json) list" where
  "detect_package_type root =
     (case child root ''package.json'' of
        Inl e \<Rightarrow> Inl e
      | Inr NoEntry \<Rightarrow> Inr []
      | Inr (Dir es) \<Rightarrow> Inl IsADirectoryError
      | Inr Denied \<Rightarrow> Inl PermissionError
      | Inr (File Unreadable) \<Rightarrow> Inl PermissionError
      | Inr (File Undecodable) \<Rightarrow> Inl UnicodeDecodeError
      | Inr (File Malformed) \<Rightarrow> Inr []
      | Inr (File (Json data)) \<Rightarrow> package_fields data)"

section \<open>main\<close>

text \<open>
  One element per call of \<^verbatim>\<open>print\<close>. \<open>Fmt pre v\<close> is the text \<open>pre\<close> followed by
  \<^verbatim>\<open>str(v)\<close> for a value of the manifest, which is the string itself when \<open>v\<close> is a
  string. In JSON mode the printed text is \<^verbatim>\<open>json.dumps\<close> of a document, kept as the
  document.
\<close>

datatype line = Text string | Fmt string json

datatype stdout = Document json | Report "line list"

definition digit :: "nat \<Rightarrow> char" where
  "digit d = ''0123456789'' ! (d mod 10)"

fun str_nat :: "nat \<Rightarrow> string" where
  "str_nat n = (if n < 10 then [digit n] else str_nat (n div 10) @ [digit (n mod 10)])"

text \<open>The hammer sign U+1F528, in UTF-8.\<close>

definition hammer :: string where
  "hammer = [CHR 0xF0, CHR 0x9F, CHR 0x94, CHR 0xA8]"

definition system_lines :: "detected \<Rightarrow> line list" where
  "system_lines sys =
     [Text (newline # hammer @ '' '' @ system sys), Text ''  Found files:'']
     @ map (\<lambda>file. Text (''   - '' @ path_str file)) (found_files sys)"

fun item_lines :: "string \<times> json \<Rightarrow> line list" where
  "item_lines (key, JArr val) =
     Text (newline # key @ '':'')
     # map (Fmt ''  - '') (take 5 val)
     @ (if length val > 5
        then [Text (''  ... and '' @ str_nat (length val - 5) @ '' more'')]
        else [])"
| "item_lines (key, val) = [Fmt (key @ '': '') val]"

definition package_lines :: "(string \<times> json) list \<Rightarrow> line list" where
  "package_lines package_info =
     (if package_info \<noteq> []
      then Text (newline # ''Package information:'') # concat (map item_lines package_info)
      else [])"

definition system_json :: "detected \<Rightarrow> json" where
  "system_json sys =
     JObj [(''name'', JStr (system sys)),
           (''files'', JArr (map (\<lambda>f. JStr (path_str f)) (found_files sys)))]"

text \<open>
  \<open>main args_json cwd\<close>: the flag \<^verbatim>\<open>--json\<close> and what the current directory resolves
  to. An exception that leaves \<^verbatim>\<open>main\<close> ends the process with status 1; in text mode
  \<^verbatim>\<open>detect_package_type\<close> is called a second time, after the systems are printed.
\<close>

definition main :: "bool \<Rightarrow> node \<Rightarrow> error + stdout" where
  "main args_json cwd =
     (case detect_build_system here cwd of
        Inl e \<Rightarrow> Inl e
      | Inr detected \<Rightarrow>
          if detected = [] then
            (if args_json
             then Inr (Document (JObj [(''systems'', JArr []), (''package_info'', JNull)]))
             else Inr (Report [Text ''No known build system detected.'']))
          else
            (case detect_package_type cwd of
               Inl e \<Rightarrow> Inl e
             | Inr package_info \<Rightarrow>
                 if args_json
                 then Inr (Document (JObj [(''systems'', JArr (map system_json detected)),
                                           (''package_info'', JObj package_info)]))
                 else
                   (case detect_package_type cwd of
                      Inl e \<Rightarrow> Inl e
                    | Inr package_info \<Rightarrow>
                        Inr (Report (Text ''Detected build systems:''
                                     # concat (map system_lines detected)
                                     @ package_lines package_info)))))"

definition exit_status :: "error + stdout \<Rightarrow> nat" where
  "exit_status r = (case r of Inl e \<Rightarrow> 1 | Inr out \<Rightarrow> 0)"

section \<open>Auxiliary notions for the statements\<close>

text \<open>The systems of a table that have a pattern accepting a given file name.\<close>

definition matching_systems :: "(string \<times> regex list) list \<Rightarrow> string \<Rightarrow> string list" where
  "matching_systems table n =
     map fst [(sys, patterns) \<leftarrow> table. list_ex (\<lambda>p. re_match p n) patterns]"

text \<open>A pattern accepts a list of files when it matches the name of one of them.\<close>

definition accepts :: "path list \<Rightarrow> regex \<Rightarrow> bool" where
  "accepts all_files p = (\<exists>f \<in> set all_files. re_match p (name f))"

text \<open>Whether a pattern ends with the anchor \<^verbatim>\<open>$\<close>.\<close>

fun ends_in_eol :: "regex \<Rightarrow> bool" where
  "ends_in_eol Eol = True"
| "ends_in_eol (Cat a b) = (if b = Empty then ends_in_eol a else ends_in_eol b)"
| "ends_in_eol p = False"

text \<open>
  Two properties of a step on position lists: its result is the union of its results on
  the single positions, and every position it produces is a suffix of the one it
  started from.
\<close>

definition pointwise :: "(string list \<Rightarrow> string list) \<Rightarrow> bool" where
  "pointwise step = (\<forall>q. set (step q) = (\<Union>r \<in> set q. set (step [r])))"

definition shrinking :: "(string list \<Rightarrow> string list) \<Rightarrow> bool" where
  "shrinking step = (\<forall>r r'. r' \<in> set (step [r]) \<longrightarrow> suffix r' r)"

section \<open>Properties of the matcher\<close>

lemma consume_suffix: "r' \<in> set (consume ok r) \<Longrightarrow> suffix r' r"
  by (cases r) (simp_all add: consume_def suffix_Cons split: if_splits)

lemma pointwiseD: "pointwise step \<Longrightarrow> set (step q) = (\<Union>r \<in> set q. set (step [r]))"
  unfolding pointwise_def by (rule spec)

lemma pointwise_cong:
  assumes "pointwise step" and "set q = set q'"
  shows "set (step q) = set (step q')"
proof -
  have "set (step q) = (\<Union>r \<in> set q. set (step [r]))"
    by (rule pointwiseD [OF assms(1)])
  also have "\<dots> = (\<Union>r \<in> set q'. set (step [r]))"
    by (simp only: assms(2))
  also have "\<dots> = set (step q')"
    by (rule pointwiseD [OF assms(1), symmetric])
  finally show ?thesis .
qed

lemma rounds_Suc_right:
  "rounds step (Suc n) q = List.union (rounds step n q) (step (rounds step n q))"
  by (induction n arbitrary: q) simp_all

lemma rounds_start: "set q \<subseteq> set (rounds step n q)"
proof (induction n arbitrary: q)
  case 0
  show ?case by simp
next
  case (Suc n)
  have "set q \<subseteq> set (List.union q (step q))" by simp
  also have "\<dots> \<subseteq> set (rounds step n (List.union q (step q)))" by (rule Suc.IH)
  finally show ?case by simp
qed

lemma rounds_pointwise:
  assumes "pointwise step"
  shows "pointwise (rounds step n)"
proof (induction n)
  case 0
  show ?case by (simp add: pointwise_def)
next
  case (Suc n)
  show ?case
    unfolding pointwise_def
  proof
    fix q
    have "set (rounds step (Suc n) q)
          = set (rounds step n q) \<union> set (step (rounds step n q))"
      by (simp only: rounds_Suc_right set_union)
    also have "set (rounds step n q) = (\<Union>r \<in> set q. set (rounds step n [r]))"
      by (rule pointwiseD [OF Suc])
    also have "set (step (rounds step n q))
               = (\<Union>x \<in> set (rounds step n q). set (step [x]))"
      by (rule pointwiseD [OF assms])
    also have "\<dots> = (\<Union>r \<in> set q. \<Union>x \<in> set (rounds step n [r]). set (step [x]))"
      by (simp add: pointwiseD [OF Suc, of q])
    also have "\<dots> = (\<Union>r \<in> set q. set (step (rounds step n [r])))"
      by (simp add: pointwiseD [OF assms, symmetric])
    finally show "set (rounds step (Suc n) q) = (\<Union>r \<in> set q. set (rounds step (Suc n) [r]))"
      by (auto simp only: rounds_Suc_right set_union)
  qed
qed

lemma rounds_shrinking:
  assumes "pointwise step" and "shrinking step"
  shows "shrinking (rounds step n)"
proof (induction n)
  case 0
  show ?case by (simp add: shrinking_def)
next
  case (Suc n)
  show ?case
    unfolding shrinking_def
  proof (intro allI impI)
    fix r r' assume "r' \<in> set (rounds step (Suc n) [r])"
    then consider "r' \<in> set (rounds step n [r])" | "r' \<in> set (step (rounds step n [r]))"
      by (auto simp only: rounds_Suc_right set_union)
    then show "suffix r' r"
    proof cases
      case 1
      with Suc show ?thesis by (simp add: shrinking_def)
    next
      case 2
      then obtain x where x: "x \<in> set (rounds step n [r])" and "r' \<in> set (step [x])"
        by (auto simp: pointwiseD [OF assms(1), of "rounds step n [r]"])
      with assms(2) have "suffix r' x" by (simp add: shrinking_def)
      moreover from x Suc have "suffix x r" by (simp add: shrinking_def)
      ultimately show ?thesis by (rule suffix_order.trans)
    qed
  qed
qed

lemma pointwise_filter: "pointwise (filter P)"
  by (auto simp: pointwise_def split: if_splits)

lemma shrinking_filter: "shrinking (filter P)"
  by (auto simp: shrinking_def split: if_splits)

lemma pointwise_consume: "pointwise (\<lambda>q. concat (map (consume ok) q))"
  by (simp add: pointwise_def)

lemma shrinking_consume: "shrinking (\<lambda>q. concat (map (consume ok) q))"
  by (simp add: shrinking_def consume_suffix)

lemma ends_pointwise_shrinking: "pointwise (ends p s) \<and> shrinking (ends p s)"
proof (induction p)
  case Bol
  have "ends Bol s = filter (\<lambda>r. length r = length s)" by (rule ext) simp
  then show ?case by (simp only: pointwise_filter shrinking_filter)
next
  case Eol
  have "ends Eol s = filter (\<lambda>r. r = [] \<or> r = [newline])" by (rule ext) simp
  then show ?case by (simp only: pointwise_filter shrinking_filter)
next
  case (Chr c)
  have "ends (Chr c) s = (\<lambda>q. concat (map (consume (\<lambda>x. lower x = lower c)) q))"
    by (rule ext) simp
  then show ?case by (simp only: pointwise_consume shrinking_consume)
next
  case Dot
  have "ends Dot s = (\<lambda>q. concat (map (consume (\<lambda>x. x \<noteq> newline)) q))"
    by (rule ext) simp
  then show ?case by (simp only: pointwise_consume shrinking_consume)
next
  case (Class cs)
  have "ends (Class cs) s
        = (\<lambda>q. concat (map (consume (\<lambda>x. lower x \<in> set (map lower cs))) q))"
    by (rule ext) simp
  then show ?case by (simp only: pointwise_consume shrinking_consume)
next
  case (Cat a b)
  then have pa: "pointwise (ends a s)" and pb: "pointwise (ends b s)"
    and sa: "shrinking (ends a s)" and sb: "shrinking (ends b s)"
    by simp_all
  have "pointwise (ends (Cat a b) s)"
    unfolding pointwise_def
  proof
    fix q
    have "set (ends b s (ends a s q)) = (\<Union>x \<in> set (ends a s q). set (ends b s [x]))"
      by (rule pointwiseD [OF pb])
    also have "\<dots> = (\<Union>r \<in> set q. \<Union>x \<in> set (ends a s [r]). set (ends b s [x]))"
      by (simp add: pointwiseD [OF pa, of q])
    also have "\<dots> = (\<Union>r \<in> set q. set (ends b s (ends a s [r])))"
      by (simp add: pointwiseD [OF pb, symmetric])
    finally show "set (ends (Cat a b) s q) = (\<Union>r \<in> set q. set (ends (Cat a b) s [r]))"
      by simp
  qed
  moreover have "shrinking (ends (Cat a b) s)"
    unfolding shrinking_def
  proof (intro allI impI)
    fix r r' assume "r' \<in> set (ends (Cat a b) s [r])"
    then obtain x where "x \<in> set (ends a s [r])" and "r' \<in> set (ends b s [x])"
      by (auto simp: pointwiseD [OF pb, of "ends a s [r]"])
    with sa sb have "suffix r' x" and "suffix x r" by (simp_all add: shrinking_def)
    then show "suffix r' r" by (rule suffix_order.trans)
  qed
  ultimately show ?case ..
next
  case (Alt a b)
  then have pa: "pointwise (ends a s)" and pb: "pointwise (ends b s)"
    and sa: "shrinking (ends a s)" and sb: "shrinking (ends b s)"
    by simp_all
  have "pointwise (ends (Alt a b) s)"
    unfolding pointwise_def
  proof
    fix q
    show "set (ends (Alt a b) s q) = (\<Union>r \<in> set q. set (ends (Alt a b) s [r]))"
      by (auto simp: pointwiseD [OF pa, of q] pointwiseD [OF pb, of q])
  qed
  moreover have "shrinking (ends (Alt a b) s)"
    using sa sb by (auto simp: shrinking_def)
  ultimately show ?case ..
next
  case (Star a)
  have "ends (Star a) s = rounds (ends a s) (Suc (length s))" by (rule ext) simp
  with Star show ?case by (simp only: rounds_pointwise rounds_shrinking)
next
  case (Opt a)
  then have pa: "pointwise (ends a s)" and sa: "shrinking (ends a s)"
    by simp_all
  have "pointwise (ends (Opt a) s)"
    unfolding pointwise_def
  proof
    fix q
    show "set (ends (Opt a) s q) = (\<Union>r \<in> set q. set (ends (Opt a) s [r]))"
      by (auto simp: pointwiseD [OF pa, of q])
  qed
  moreover have "shrinking (ends (Opt a) s)"
    using sa by (auto simp: shrinking_def)
  ultimately show ?case ..
next
  case Empty
  show ?case by (simp add: pointwise_def shrinking_def)
qed


lemma proper_suffix_shorter: "suffix r r0 \<Longrightarrow> r \<noteq> r0 \<Longrightarrow> length r < length r0"
  by (auto simp: suffix_def)

lemma new_positions_short:
  assumes pw: "pointwise step" and sh: "shrinking step" and q: "\<forall>r \<in> set q. suffix r s"
  shows "\<forall>r \<in> set (step (rounds step k q)) - set (rounds step k q). length r + k < length s"
proof (induction k)
  case 0
  show ?case
  proof
    fix r assume r: "r \<in> set (step (rounds step 0 q)) - set (rounds step 0 q)"
    then have "r \<in> (\<Union>x \<in> set q. set (step [x]))" and out: "r \<notin> set q"
      using pointwiseD [OF pw, of q] by simp_all
    then obtain r0 where r0: "r0 \<in> set q" and "r \<in> set (step [r0])" by blast
    with sh have "suffix r r0" by (simp add: shrinking_def)
    moreover from r0 out have "r \<noteq> r0" by blast
    ultimately have "length r < length r0" by (rule proper_suffix_shorter)
    moreover from q r0 have "length r0 \<le> length s" by (simp add: suffix_length_le)
    ultimately show "length r + 0 < length s" by simp
  qed
next
  case (Suc k)
  let ?Q = "rounds step k q"
  let ?Q' = "rounds step (Suc k) q"
  have Q': "set ?Q' = set ?Q \<union> set (step ?Q)"
    by (simp only: rounds_Suc_right set_union)
  show ?case
  proof
    fix r assume r: "r \<in> set (step ?Q') - set ?Q'"
    then have "r \<in> (\<Union>x \<in> set ?Q'. set (step [x]))"
      using pointwiseD [OF pw, of ?Q'] by blast
    then obtain r0 where r0: "r0 \<in> set ?Q'" and st: "r \<in> set (step [r0])" by blast
    have "r0 \<notin> set ?Q"
    proof
      assume "r0 \<in> set ?Q"
      with st have "r \<in> (\<Union>x \<in> set ?Q. set (step [x]))" by blast
      then have "r \<in> set (step ?Q)" using pointwiseD [OF pw, of ?Q] by blast
      with Q' r show False by blast
    qed
    with r0 Q' have "r0 \<in> set (step ?Q) - set ?Q" by blast
    with Suc have short: "length r0 + k < length s" by blast
    from sh st have "suffix r r0" by (simp add: shrinking_def)
    moreover from r r0 have "r \<noteq> r0" by blast
    ultimately have "length r < length r0" by (rule proper_suffix_shorter)
    with short show "length r + Suc k < length s" by simp
  qed
qed

lemma rounds_saturated:
  assumes pw: "pointwise step" and sh: "shrinking step" and q: "\<forall>r \<in> set q. suffix r s"
  shows "set (step (rounds step (Suc (length s)) q)) \<subseteq> set (rounds step (Suc (length s)) q)"
proof -
  let ?Q = "rounds step (length s) q"
  from new_positions_short [OF assms, of "length s"]
  have closed: "set (step ?Q) \<subseteq> set ?Q" by auto
  have "set (rounds step (Suc (length s)) q) = set ?Q \<union> set (step ?Q)"
    by (simp only: rounds_Suc_right set_union)
  with closed have same: "set (rounds step (Suc (length s)) q) = set ?Q" by blast
  from pointwise_cong [OF pw same] closed same show ?thesis by simp
qed

text \<open>
  The positions after a repetition hold the starting positions and are closed under one
  more match of the body: the bound on the rounds loses no match.
\<close>

lemma star_closed:
  assumes "\<forall>r \<in> set rs. suffix r s"
  shows "set rs \<subseteq> set (ends (Star a) s rs)"
    and "set (ends a s (ends (Star a) s rs)) \<subseteq> set (ends (Star a) s rs)"
proof -
  show "set rs \<subseteq> set (ends (Star a) s rs)"
    unfolding ends.simps by (rule rounds_start)
  from ends_pointwise_shrinking [of a s]
  have "pointwise (ends a s)" and "shrinking (ends a s)" by simp_all
  from rounds_saturated [OF this assms]
  show "set (ends a s (ends (Star a) s rs)) \<subseteq> set (ends (Star a) s rs)"
    unfolding ends.simps .
qed

lemma ends_suffix:
  assumes "\<forall>r \<in> set rs. suffix r s"
  shows "\<forall>r \<in> set (ends p s rs). suffix r s"
proof
  fix r' assume "r' \<in> set (ends p s rs)"
  with ends_pointwise_shrinking [of p s] obtain r where r: "r \<in> set rs"
    and "r' \<in> set (ends p s [r])"
    using pointwiseD [of "ends p s" rs] by blast
  with ends_pointwise_shrinking [of p s] have "suffix r' r" by (simp add: shrinking_def)
  moreover from r assms have "suffix r s" by simp
  ultimately show "suffix r' s" by (rule suffix_order.trans)
qed

lemma suffix_not_newline:
  assumes "s = [] \<or> last s \<noteq> newline" and "suffix r s"
  shows "r \<noteq> [newline]"
proof
  assume "r = [newline]"
  with assms(2) obtain xs where "s = xs @ [newline]" by (auto simp: suffix_def)
  with assms(1) show False by simp
qed

lemma ends_in_eol_final:
  assumes "s = [] \<or> last s \<noteq> newline"
  shows "ends_in_eol p \<Longrightarrow> \<forall>r \<in> set rs. suffix r s \<Longrightarrow> set (ends p s rs) \<subseteq> {[]}"
proof (induction p arbitrary: rs rule: ends_in_eol.induct)
  case 1
  then show ?case using suffix_not_newline [OF assms] by auto
next
  case (2 a b)
  show ?case
  proof (cases "b = Empty")
    case True
    with 2 show ?thesis by simp
  next
    case False
    from ends_suffix [OF "2.prems"(2)] have "\<forall>r \<in> set (ends a s rs). suffix r s" .
    from "2.IH"(2) [OF False _ this] "2.prems"(1) False show ?thesis by simp
  qed
qed simp_all

text \<open>
  On a name that does not end in a newline, a pattern that ends in \<^verbatim>\<open>$\<close> matches
  exactly when it matches the whole name; every pattern of the table ends in \<^verbatim>\<open>$\<close>.
\<close>

lemma whole_name_match:
  assumes "ends_in_eol p" and "s = [] \<or> last s \<noteq> newline"
  shows "re_match p s = re_fullmatch p s"
proof -
  have "set (ends p s [s]) \<subseteq> {[]}"
    by (rule ends_in_eol_final [OF assms(2,1)]) simp
  then have "ends p s [s] \<noteq> [] \<longleftrightarrow> [] \<in> set (ends p s [s])"
    by (cases "ends p s [s]") auto
  then show ?thesis by (simp add: re_match_def re_fullmatch_def)
qed

lemma build_systems_anchored:
  "list_all (\<lambda>(sys, patterns). list_all ends_in_eol patterns) build_systems"
  by code_simp

lemma table_whole_name_match:
  assumes "(sys, patterns) \<in> set build_systems" and "p \<in> set patterns"
    and "s = [] \<or> last s \<noteq> newline"
  shows "re_match p s = re_fullmatch p s"
proof -
  from build_systems_anchored assms(1,2) have "ends_in_eol p"
    by (auto simp: list_all_iff)
  from whole_name_match [OF this assms(3)] show ?thesis .
qed

lemma makefile_variants:
  "detect_build_system here (Dir [(''Makefile'', File Malformed), (''makefile'', File Malformed)])
     = Inr [\<lparr>system = ''Make'',
            found_files = [Path False [''Makefile''], Path False [''makefile'']]\<rparr>]"
  by code_simp

section \<open>Scanning a single file\<close>

lemma name_joinpath [simp]: "name (joinpath d n) = n"
  by (cases d) simp

lemma check_patterns_single:
  "check_patterns sys patterns [f] =
     (if list_ex (\<lambda>p. re_match p (name f)) patterns
      then [\<lparr>system = sys, found_files = [f]\<rparr>] else [])"
  by (induction patterns) simp_all

lemma check_systems_single:
  "check_systems table [f] =
     map (\<lambda>sys. \<lparr>system = sys, found_files = [f]\<rparr>) (matching_systems table (name f))"
  by (induction table) (auto simp: matching_systems_def check_patterns_single)

lemma matching_Cargo_toml: "matching_systems build_systems ''Cargo.toml'' = [''Cargo (Rust)'']"
  by code_simp

lemma matching_pom_newline:
  "matching_systems build_systems (''pom.xml'' @ [newline]) = [''Maven'']"
  by code_simp

section \<open>Whole-name matching\<close>

text \<open>
  Claim C1. A pattern of the table accepts a collected file exactly when the whole file
  name matches it, case-insensitively; a directory with \<^verbatim>\<open>Makefile\<close> and
  \<^verbatim>\<open>makefile\<close> has both in the one entry for Make. The second part holds, and so does
  the first for every name that does not end in a newline (\<open>table_whole_name_match\<close>).
  But the code anchors the patterns with \<^verbatim>\<open>^\<close> and \<^verbatim>\<open>$\<close> and calls \<^verbatim>\<open>re.match\<close>,
  and \<^verbatim>\<open>$\<close> also holds before a final newline: the name \<^verbatim>\<open>pom.xml\<close> followed by a
  newline character is accepted by the Maven pattern, which matches only its first seven
  characters, and a directory holding a file of that name is reported as a Maven project.
\<close>

theorem pom_xml_trailing_newline:
  "(''Maven'', [seq [Bol, str ''pom.xml'', Eol]]) \<in> set build_systems
   \<and> re_match (seq [Bol, str ''pom.xml'', Eol]) (''pom.xml'' @ [newline])
   \<and> \<not> re_fullmatch (seq [Bol, str ''pom.xml'', Eol]) (''pom.xml'' @ [newline])
   \<and> detect_build_system here (Dir [(''pom.xml'' @ [newline], File c)])
       = Inr [\<lparr>system = ''Maven'', found_files = [Path False [''pom.xml'' @ [newline]]]\<rparr>]
   \<and> detect_build_system here
         (Dir [(''Makefile'', File Malformed), (''makefile'', File Malformed)])
       = Inr [\<lparr>system = ''Make'',
              found_files = [Path False [''Makefile''], Path False [''makefile'']]\<rparr>]"
proof -
  have a: "(''Maven'', [seq [Bol, str ''pom.xml'', Eol]]) \<in> set build_systems"
    by (simp add: build_systems_def)
  have b: "re_match (seq [Bol, str ''pom.xml'', Eol]) (''pom.xml'' @ [newline])"
    by code_simp
  have c: "\<not> re_fullmatch (seq [Bol, str ''pom.xml'', Eol]) (''pom.xml'' @ [newline])"
    by code_simp
  have d: "detect_build_system here (Dir [(''pom.xml'' @ [newline], File c)])
       = Inr [\<lparr>system = ''Maven'', found_files = [Path False [''pom.xml'' @ [newline]]]\<rparr>]"
    using matching_pom_newline
    by (simp add: detect_build_system_def collect_files_def check_systems_single)
  from a b c d makefile_variants show ?thesis by (intro conjI)
qed

section \<open>A lone Cargo.toml\<close>

text \<open>
  Claim C9. When the scan of a directory collects exactly one file and that file is
  named \<^verbatim>\<open>Cargo.toml\<close>, the result is exactly one entry, for the system
  \<^verbatim>\<open>Cargo (Rust)\<close>, holding that file; no other system of the table is reported.
\<close>

theorem cargo_toml_alone:
  assumes "collect_files d root = Inr [f]" and "name f = ''Cargo.toml''"
  shows "detect_build_system d root = Inr [\<lparr>system = ''Cargo (Rust)'', found_files = [f]\<rparr>]"
  using assms by (simp add: detect_build_system_def check_systems_single matching_Cargo_toml)

theorem cargo_toml_alone_witness:
  "collect_files here (Dir [(''Cargo.toml'', File Malformed)]) = Inr [Path False [''Cargo.toml'']]
   \<and> name (Path False [''Cargo.toml'']) = ''Cargo.toml''
   \<and> detect_build_system here (Dir [(''Cargo.toml'', File Malformed)])
       = Inr [\<lparr>system = ''Cargo (Rust)'', found_files = [Path False [''Cargo.toml'']]\<rparr>]"
proof -
  have c: "collect_files here (Dir [(''Cargo.toml'', File Malformed)])
           = Inr [Path False [''Cargo.toml'']]"
    by (simp add: collect_files_def)
  have n: "name (Path False [''Cargo.toml'']) = ''Cargo.toml''"
    by simp
  show ?thesis using c n cargo_toml_alone [OF c n] by simp
qed

section \<open>The first matching pattern\<close>

lemma filter_nonempty_accepts:
  "([file \<leftarrow> all_files. re_match p (name file)] \<noteq> []) = accepts all_files p"
  by (auto simp: accepts_def filter_empty_conv)

lemma check_patterns_find:
  "check_patterns sys patterns all_files =
     (case find (accepts all_files) patterns of
        None \<Rightarrow> []
      | Some p \<Rightarrow> [\<lparr>system = sys, found_files = [f \<leftarrow> all_files. re_match p (name f)]\<rparr>])"
  by (induction patterns) (simp_all add: Let_def filter_nonempty_accepts)

lemma check_patterns_system:
  "m \<in> set (check_patterns sys patterns all_files) \<Longrightarrow> system m = sys"
  by (auto simp: check_patterns_find split: option.splits)

lemma check_systems_other:
  "sys \<notin> fst ` set table \<Longrightarrow> [m \<leftarrow> check_systems table all_files. system m = sys] = []"
  by (induction table) (auto simp: filter_empty_conv dest: check_patterns_system)

lemma check_systems_entry:
  "distinct (map fst table) \<Longrightarrow> (sys, patterns) \<in> set table \<Longrightarrow>
   [m \<leftarrow> check_systems table all_files. system m = sys] = check_patterns sys patterns all_files"
proof (induction table)
  case Nil
  then show ?case by simp
next
  case (Cons e table)
  obtain s ps where e: "e = (s, ps)" by (cases e)
  show ?case
  proof (cases "s = sys")
    case True
    with Cons.prems e have same: "ps = patterns" and out: "sys \<notin> fst ` set table"
      by (auto simp: image_iff)
    have "[m \<leftarrow> check_patterns sys patterns all_files. system m = sys]
          = check_patterns sys patterns all_files"
      by (simp add: filter_id_conv check_patterns_system)
    with True e same out show ?thesis
      by (simp add: check_systems_other)
  next
    case False
    have "[m \<leftarrow> check_patterns s ps all_files. system m = sys] = []"
      using False by (auto simp: filter_empty_conv dest: check_patterns_system)
    with False Cons e show ?thesis by auto
  qed
qed

lemma distinct_build_systems: "distinct (map fst build_systems)"
  by (simp add: build_systems_def)

text \<open>
  Claim C2. For every system of the table, the entries of the result for that system
  are decided by the first of its patterns, in table order, that matches a collected
  file: there is exactly one entry, holding all the files that this one pattern matches,
  and the later patterns of the system have no part in it. When none of its patterns
  matches a file, the result has no entry for the system.
\<close>

theorem first_pattern_wins:
  assumes "(sys, patterns) \<in> set build_systems"
    and "collect_files d root = Inr all_files"
  shows "\<exists>ms. detect_build_system d root = Inr ms \<and>
           [m \<leftarrow> ms. system m = sys] =
             (case find (accepts all_files) patterns of
                None \<Rightarrow> []
              | Some p \<Rightarrow>
                  [\<lparr>system = sys, found_files = [f \<leftarrow> all_files. re_match p (name f)]\<rparr>])"
  using assms
  by (simp add: detect_build_system_def check_systems_entry [OF distinct_build_systems]
        check_patterns_find)


theorem first_pattern_wins_witness:
  "(''Gradle'', [seq [Bol, str ''build.gradle'', Opt (str ''.kts''), Eol],
                 seq [Bol, str ''settings.gradle'', Eol],
                 seq [Bol, str ''gradlew'', Eol]]) \<in> set build_systems
   \<and> collect_files here (Dir [(''gradlew'', File Malformed), (''settings.gradle'', File Malformed)])
       = Inr [Path False [''gradlew''], Path False [''settings.gradle'']]
   \<and> (\<exists>ms. detect_build_system here
               (Dir [(''gradlew'', File Malformed), (''settings.gradle'', File Malformed)]) = Inr ms
          \<and> [m \<leftarrow> ms. system m = ''Gradle'']
              = [\<lparr>system = ''Gradle'', found_files = [Path False [''settings.gradle'']]\<rparr>])"
proof -
  let ?ps = "[seq [Bol, str ''build.gradle'', Opt (str ''.kts''), Eol],
              seq [Bol, str ''settings.gradle'', Eol],
              seq [Bol, str ''gradlew'', Eol]]"
  let ?fs = "[Path False [''gradlew''], Path False [''settings.gradle'']]"
  have a: "(''Gradle'', ?ps) \<in> set build_systems"
    by (simp add: build_systems_def)
  have b: "collect_files here (Dir [(''gradlew'', File Malformed), (''settings.gradle'', File Malformed)])
           = Inr ?fs"
    by (simp add: collect_files_def)
  have c: "find (accepts ?fs) ?ps = Some (seq [Bol, str ''settings.gradle'', Eol])"
    by code_simp
  have d: "[f \<leftarrow> ?fs. re_match (seq [Bol, str ''settings.gradle'', Eol]) (name f)]
           = [Path False [''settings.gradle'']]"
    by code_simp
  have e: "\<exists>ms. detect_build_system here
               (Dir [(''gradlew'', File Malformed), (''settings.gradle'', File Malformed)]) = Inr ms
          \<and> [m \<leftarrow> ms. system m = ''Gradle'']
              = [\<lparr>system = ''Gradle'', found_files = [Path False [''settings.gradle'']]\<rparr>]"
    using first_pattern_wins [OF a b] by (simp only: c option.case d)
  from a b e show ?thesis by blast
qed

section \<open>The files of the scan\<close>

lemma check_patterns_found:
  "m \<in> set (check_patterns sys patterns all_files) \<Longrightarrow> f \<in> set (found_files m) \<Longrightarrow>
   f \<in> set all_files \<and> (\<exists>p \<in> set patterns. re_match p (name f))"
  by (induction patterns) (auto simp: Let_def split: if_splits)

lemma check_systems_found:
  "m \<in> set (check_systems table all_files) \<Longrightarrow> f \<in> set (found_files m) \<Longrightarrow>
   f \<in> set all_files \<and> (\<exists>patterns. (system m, patterns) \<in> set table \<and> (\<exists>p \<in> set patterns. re_match p (name f)))"
proof (induction table)
  case Nil
  then show ?case by simp
next
  case (Cons e table)
  obtain s ps where e: "e = (s, ps)" by (cases e)
  show ?case
  proof (cases "m \<in> set (check_patterns s ps all_files)")
    case True
    from check_patterns_found [OF True Cons.prems(2)] check_patterns_system [OF True] e
    show ?thesis by auto
  next
    case False
    with Cons e show ?thesis by auto
  qed
qed

lemma scan_subdirs_files:
  "scan_subdirs subdirs acc = Inr fs \<Longrightarrow>
   set fs = set acc \<union> {joinpath p n | p es n c. (p, Dir es) \<in> set subdirs \<and> (n, File c) \<in> set es}"
proof (induction subdirs acc rule: scan_subdirs.induct)
  case (1 all_files)
  then show ?case by simp
next
  case (2 subdir rest all_files)
  obtain p x where sd: "subdir = (p, x)" by (cases subdir)
  show ?case
  proof (cases x)
    case (File c)
    with 2 sd show ?thesis by auto
  next
    case (Dir es)
    have fl: "set (map fst (filter is_file (map (\<lambda>(n, x). (joinpath p n, x)) es)))
              = {joinpath p n | n c. (n, File c) \<in> set es}"
      by (auto simp: image_iff elim!: is_file.elims) force
    from 2 sd Dir fl show ?thesis by auto
  next
    case Denied
    with 2 sd show ?thesis by simp
  next
    case NoEntry
    with 2 sd show ?thesis by auto
  qed
qed

lemma collect_files_set:
  "collect_files d root = Inr fs \<Longrightarrow>
   \<exists>es. root = Dir es \<and>
     set fs = {joinpath d n | n c. (n, File c) \<in> set es}
            \<union> {joinpath (joinpath d sub) n | sub es' n c.
                 (sub, Dir es') \<in> set es \<and> (n, File c) \<in> set es'}"
proof (cases root)
  case (Dir es)
  assume c: "collect_files d root = Inr fs"
  have top: "set (map fst (filter is_file (map (\<lambda>(n, x). (joinpath d n, x)) es)))
              = {joinpath d n | n c. (n, File c) \<in> set es}"
    by (auto simp: image_iff elim!: is_file.elims) force
  have sub: "{joinpath p n | p es' n c.
                (p, Dir es') \<in> set (map (\<lambda>(n, x). (joinpath d n, x)) es) \<and> (n, File c) \<in> set es'}
             = {joinpath (joinpath d sub) n | sub es' n c.
                 (sub, Dir es') \<in> set es \<and> (n, File c) \<in> set es'}"
    by (auto simp: image_iff) force+
  from c Dir have "scan_subdirs (map (\<lambda>(n, x). (joinpath d n, x)) es)
                     (map fst (filter is_file (map (\<lambda>(n, x). (joinpath d n, x)) es))) = Inr fs"
    by (simp add: collect_files_def)
  from scan_subdirs_files [OF this] top sub Dir show ?thesis by simp
qed (simp_all add: collect_files_def)

text \<open>
  Claim C3. Every file of every entry of the result is a regular file that lies directly
  in the scanned directory or directly in one of its immediate subdirectories; its path
  is the directory's path with one or two more parts, so no file two or more levels
  further down is part of an entry.
\<close>

theorem depth_two_boundary:
  assumes "detect_build_system d root = Inr ms" and "m \<in> set ms" and "f \<in> set (found_files m)"
  shows "\<exists>es. root = Dir es \<and>
           ((\<exists>n c. (n, File c) \<in> set es \<and> f = joinpath d n) \<or>
            (\<exists>sub es' n c. (sub, Dir es') \<in> set es \<and> (n, File c) \<in> set es'
                \<and> f = joinpath (joinpath d sub) n))"
proof -
  from assms(1) obtain fs where c: "collect_files d root = Inr fs"
    and ms: "ms = check_systems build_systems fs"
    by (auto simp: detect_build_system_def split: sum.splits)
  from check_systems_found assms(2,3) ms have f: "f \<in> set fs" by blast
  from collect_files_set [OF c] obtain es where r: "root = Dir es"
    and s: "set fs = {joinpath d n | n c. (n, File c) \<in> set es}
            \<union> {joinpath (joinpath d sub) n | sub es' n c.
                 (sub, Dir es') \<in> set es \<and> (n, File c) \<in> set es'}"
    by blast
  from f s have "f \<in> {joinpath d n | n c. (n, File c) \<in> set es}
     \<or> f \<in> {joinpath (joinpath d sub) n | sub es' n c.
                 (sub, Dir es') \<in> set es \<and> (n, File c) \<in> set es'}"
    by blast
  with r show ?thesis by blast
qed

theorem depth_two_boundary_witness:
  "detect_build_system here
     (Dir [(''sub'', Dir [(''go.mod'', File Malformed),
                          (''deep'', Dir [(''pom.xml'', File Malformed)])])])
     = Inr [\<lparr>system = ''Go Modules'', found_files = [Path False [''sub'', ''go.mod'']]\<rparr>]
   \<and> (\<exists>es. Dir [(''sub'', Dir [(''go.mod'', File Malformed),
                          (''deep'', Dir [(''pom.xml'', File Malformed)])])] = Dir es \<and>
           ((\<exists>n c. (n, File c) \<in> set es \<and> Path False [''sub'', ''go.mod''] = joinpath here n) \<or>
            (\<exists>sub es' n c. (sub, Dir es') \<in> set es \<and> (n, File c) \<in> set es'
                \<and> Path False [''sub'', ''go.mod''] = joinpath (joinpath here sub) n)))"
proof -
  let ?root = "Dir [(''sub'', Dir [(''go.mod'', File Malformed),
                          (''deep'', Dir [(''pom.xml'', File Malformed)])])]"
  let ?m = "\<lparr>system = ''Go Modules'', found_files = [Path False [''sub'', ''go.mod'']]\<rparr>"
  have a: "detect_build_system here ?root = Inr [?m]"
    by code_simp
  have b: "?m \<in> set [?m]" by simp
  have c: "Path False [''sub'', ''go.mod''] \<in> set (found_files ?m)" by simp
  from a depth_two_boundary [OF a b c] show ?thesis by blast
qed

section \<open>The order of the result\<close>

lemma check_patterns_systems:
  "map system (check_patterns sys patterns all_files) =
     (if \<exists>p \<in> set patterns. accepts all_files p then [sys] else [])"
  by (induction patterns) (auto simp: Let_def filter_nonempty_accepts)

lemma check_systems_systems:
  "map system (check_systems table all_files) =
     map fst [(sys, patterns) \<leftarrow> table. \<exists>p \<in> set patterns. accepts all_files p]"
  by (induction table) (auto simp: check_patterns_systems)

lemma check_patterns_nil: "check_patterns sys patterns [] = []"
  by (induction patterns) simp_all

lemma check_systems_nil: "check_systems table [] = []"
  by (induction table) (auto simp: check_patterns_nil)

lemma accepts_set: "set fs' = set fs \<Longrightarrow> accepts fs' = accepts fs"
  by (simp add: accepts_def fun_eq_iff)

lemma detect_build_system_Inr:
  "detect_build_system d root = Inr ms \<longleftrightarrow>
     (\<exists>fs. collect_files d root = Inr fs \<and> ms = check_systems build_systems fs)"
  by (auto simp: detect_build_system_def split: sum.splits)

lemma build_systems_names:
  "map fst build_systems =
     [''Maven'', ''Gradle'', ''npm'', ''Yarn'', ''Python/pip'', ''Poetry'', ''CMake'', ''Make'',
      ''Cargo (Rust)'', ''Composer (PHP)'', ''Bazel'', ''Ant'', ''sbt (Scala)'', ''Go Modules'',
      ''Lazarus'', ''SCons'']"
  by (simp add: build_systems_def)

text \<open>
  Claim C4. The systems of the result are the systems of the table that have a pattern
  matching a collected file, in the order of the table (Maven first, SCons last), so
  their sequence is a subsequence of the table's names; any other scan that collects
  the same files, in whatever order, reports the same sequence of systems. The result
  is empty exactly when no pattern of the table matches a collected file, as for an
  empty directory.
\<close>

theorem table_order:
  assumes "detect_build_system d root = Inr ms"
  shows "(\<exists>fs. collect_files d root = Inr fs
            \<and> map system ms
                = map fst [(sys, patterns) \<leftarrow> build_systems. \<exists>p \<in> set patterns. accepts fs p]
            \<and> (ms = [] \<longleftrightarrow>
                 (\<forall>(sys, patterns) \<in> set build_systems. \<forall>p \<in> set patterns. \<not> accepts fs p))
            \<and> (\<forall>d' root' fs'. collect_files d' root' = Inr fs' \<and> set fs' = set fs \<longrightarrow>
                 (\<exists>ms'. detect_build_system d' root' = Inr ms'
                        \<and> map system ms' = map system ms)))
         \<and> subseq (map system ms)
              [''Maven'', ''Gradle'', ''npm'', ''Yarn'', ''Python/pip'', ''Poetry'', ''CMake'',
               ''Make'', ''Cargo (Rust)'', ''Composer (PHP)'', ''Bazel'', ''Ant'', ''sbt (Scala)'',
               ''Go Modules'', ''Lazarus'', ''SCons'']
         \<and> detect_build_system d (Dir []) = Inr []"
proof -
  from assms obtain fs where c: "collect_files d root = Inr fs"
    and ms: "ms = check_systems build_systems fs"
    by (auto simp: detect_build_system_Inr)
  have sys: "map system ms
      = map fst [(sys, patterns) \<leftarrow> build_systems. \<exists>p \<in> set patterns. accepts fs p]"
    by (simp add: ms check_systems_systems)
  have "ms = [] \<longleftrightarrow> map system ms = []" by simp
  also have "\<dots> \<longleftrightarrow> (\<forall>(sys, patterns) \<in> set build_systems. \<forall>p \<in> set patterns. \<not> accepts fs p)"
    unfolding sys by (auto simp: filter_empty_conv)
  finally have empty: "ms = [] \<longleftrightarrow>
      (\<forall>(sys, patterns) \<in> set build_systems. \<forall>p \<in> set patterns. \<not> accepts fs p)" .
  have indep: "\<exists>ms'. detect_build_system d' root' = Inr ms' \<and> map system ms' = map system ms"
    if "collect_files d' root' = Inr fs' \<and> set fs' = set fs" for d' root' fs'
  proof -
    from that have "accepts fs' = accepts fs" by (blast intro: accepts_set)
    with that show ?thesis
      by (simp add: detect_build_system_def ms check_systems_systems)
  qed
  have "subseq (map system ms) (map fst build_systems)"
    unfolding sys by (simp only: subseq_map subseq_filter_left)
  then have sub: "subseq (map system ms)
              [''Maven'', ''Gradle'', ''npm'', ''Yarn'', ''Python/pip'', ''Poetry'', ''CMake'',
               ''Make'', ''Cargo (Rust)'', ''Composer (PHP)'', ''Bazel'', ''Ant'', ''sbt (Scala)'',
               ''Go Modules'', ''Lazarus'', ''SCons'']"
    by (simp only: build_systems_names)
  have nil: "detect_build_system d (Dir []) = Inr []"
    by (simp add: detect_build_system_def collect_files_def check_systems_nil)
  from c sys empty indep sub nil show ?thesis by blast
qed

theorem table_order_witness:
  "detect_build_system here (Dir [(''yarn.lock'', File Malformed), (''pom.xml'', File Malformed)])
     = Inr [\<lparr>system = ''Maven'', found_files = [Path False [''pom.xml'']]\<rparr>,
            \<lparr>system = ''Yarn'', found_files = [Path False [''yarn.lock'']]\<rparr>]
   \<and> subseq [''Maven'', ''Yarn'']
         [''Maven'', ''Gradle'', ''npm'', ''Yarn'', ''Python/pip'', ''Poetry'', ''CMake'',
          ''Make'', ''Cargo (Rust)'', ''Composer (PHP)'', ''Bazel'', ''Ant'', ''sbt (Scala)'',
          ''Go Modules'', ''Lazarus'', ''SCons'']
   \<and> (\<exists>ms'. detect_build_system here
                 (Dir [(''pom.xml'', File Malformed), (''yarn.lock'', File Malformed)]) = Inr ms'
            \<and> map system ms' = [''Maven'', ''Yarn''])"
proof -
  let ?ms = "[\<lparr>system = ''Maven'', found_files = [Path False [''pom.xml'']]\<rparr>,
              \<lparr>system = ''Yarn'', found_files = [Path False [''yarn.lock'']]\<rparr>]"
  have a: "detect_build_system here
             (Dir [(''yarn.lock'', File Malformed), (''pom.xml'', File Malformed)]) = Inr ?ms"
    by code_simp
  have c: "collect_files here (Dir [(''yarn.lock'', File Malformed), (''pom.xml'', File Malformed)])
           = Inr [Path False [''yarn.lock''], Path False [''pom.xml'']]"
    by (simp add: collect_files_def)
  have c': "collect_files here (Dir [(''pom.xml'', File Malformed), (''yarn.lock'', File Malformed)])
           = Inr [Path False [''pom.xml''], Path False [''yarn.lock'']]"
    by (simp add: collect_files_def)
  have s: "set [Path False [''pom.xml''], Path False [''yarn.lock'']]
           = set [Path False [''yarn.lock''], Path False [''pom.xml'']]"
    by auto
  from table_order [OF a] c
  have sub: "subseq (map system ?ms)
         [''Maven'', ''Gradle'', ''npm'', ''Yarn'', ''Python/pip'', ''Poetry'', ''CMake'',
          ''Make'', ''Cargo (Rust)'', ''Composer (PHP)'', ''Bazel'', ''Ant'', ''sbt (Scala)'',
          ''Go Modules'', ''Lazarus'', ''SCons'']"
    and indep: "\<forall>d' root' fs'. collect_files d' root' = Inr fs'
                 \<and> set fs' = set [Path False [''yarn.lock''], Path False [''pom.xml'']] \<longrightarrow>
                 (\<exists>ms'. detect_build_system d' root' = Inr ms'
                        \<and> map system ms' = map system ?ms)"
    by auto
  from indep c' s
  have "\<exists>ms'. detect_build_system here
                 (Dir [(''pom.xml'', File Malformed), (''yarn.lock'', File Malformed)]) = Inr ms'
            \<and> map system ms' = map system ?ms"
    by blast
  with a sub show ?thesis by simp
qed

section \<open>The paths of the files found\<close>

lemma path_str_relative: "rel \<noteq> [] \<Longrightarrow> path_str (Path False rel) = join rel"
  by simp

lemma main_text_report:
  "main False cwd = Inr (Report lines) \<Longrightarrow> detect_build_system here cwd = Inr ms \<Longrightarrow>
   ms \<noteq> [] \<Longrightarrow>
   \<exists>info. detect_package_type cwd = Inr info \<and>
     lines = Text ''Detected build systems:'' # concat (map system_lines ms) @ package_lines info"
  by (auto simp: main_def split: sum.splits if_splits)










section \<open>The JSON document\<close>

text \<open>
  Claim C7. In JSON mode, every document the run emits has the field
  \<^verbatim>\<open>package_info\<close> equal to \<^verbatim>\<open>null\<close> exactly when its list of systems is empty, that
  is, when no build system was detected; when a system was detected the field is the
  dictionary that \<^verbatim>\<open>detect_package_type\<close> returned, which may be empty but is no
  \<^verbatim>\<open>null\<close>.
\<close>

theorem package_info_null_iff_no_systems:
  assumes "main True cwd = Inr out"
  shows "\<exists>ms info. detect_build_system here cwd = Inr ms
           \<and> out = Document (JObj [(''systems'', JArr (map system_json ms)),
                                    (''package_info'', info)])
           \<and> (info = JNull \<longleftrightarrow> map system_json ms = [])
           \<and> (map system_json ms = [] \<longleftrightarrow> ms = [])
           \<and> (ms \<noteq> [] \<longrightarrow> (\<exists>kvs. detect_package_type cwd = Inr kvs \<and> info = JObj kvs))"
proof (cases "detect_build_system here cwd")
  case (Inl e)
  with assms show ?thesis by (simp add: main_def)
next
  case (Inr ms)
  show ?thesis
  proof (cases "ms = []")
    case True
    with assms Inr have "out = Document (JObj [(''systems'', JArr (map system_json ms)),
                                               (''package_info'', JNull)])"
      by (simp add: main_def)
    with Inr True show ?thesis by simp
  next
    case False
    with assms Inr obtain kvs where "detect_package_type cwd = Inr kvs"
      and "out = Document (JObj [(''systems'', JArr (map system_json ms)),
                                 (''package_info'', JObj kvs)])"
      by (cases "detect_package_type cwd") (simp_all add: main_def)
    with Inr False show ?thesis by simp
  qed
qed

theorem package_info_null_iff_no_systems_witness:
  "main True (Dir [(''package.json'', File Malformed)])
     = Inr (Document (JObj [(''systems'',
                             JArr [JObj [(''name'', JStr ''npm''),
                                         (''files'', JArr [JStr ''package.json''])]]),
                            (''package_info'', JObj [])]))
   \<and> (\<exists>ms info. detect_build_system here (Dir [(''package.json'', File Malformed)]) = Inr ms
           \<and> Document (JObj [(''systems'',
                             JArr [JObj [(''name'', JStr ''npm''),
                                         (''files'', JArr [JStr ''package.json''])]]),
                            (''package_info'', JObj [])])
               = Document (JObj [(''systems'', JArr (map system_json ms)),
                                 (''package_info'', info)])
           \<and> (info = JNull \<longleftrightarrow> map system_json ms = [])
           \<and> (map system_json ms = [] \<longleftrightarrow> ms = [])
           \<and> (ms \<noteq> [] \<longrightarrow>
                (\<exists>kvs. detect_package_type (Dir [(''package.json'', File Malformed)]) = Inr kvs
                      \<and> info = JObj kvs)))"
proof -
  have a: "main True (Dir [(''package.json'', File Malformed)])
     = Inr (Document (JObj [(''systems'',
                             JArr [JObj [(''name'', JStr ''npm''),
                                         (''files'', JArr [JStr ''package.json''])]]),
                            (''package_info'', JObj [])]))"
    by code_simp
  show ?thesis
    using a package_info_null_iff_no_systems [OF a] by (rule conjI)
qed


section \<open>The dependency list of the report\<close>

lemma rematch_package_json:
  "re_match (seq [Bol, str ''package'', Opt (str ''-lock''), str ''.json'', Eol]) ''package.json''"
  by code_simp

lemma npm_detected:
  assumes "(''package.json'', File c) \<in> set es"
    and "detect_build_system here (Dir es) = Inr ms"
  shows "ms \<noteq> []"
proof -
  from assms(2) obtain fs where c: "collect_files here (Dir es) = Inr fs"
    and ms: "ms = check_systems build_systems fs"
    by (auto simp: detect_build_system_Inr)
  from collect_files_set [OF c] assms(1) have "joinpath here ''package.json'' \<in> set fs"
    by auto
  then have "accepts fs (seq [Bol, str ''package'', Opt (str ''-lock''), str ''.json'', Eol])"
    unfolding accepts_def using rematch_package_json by (intro bexI [of _ "joinpath here ''package.json''"]) simp_all
  then have "''npm'' \<in> set (map system ms)"
    unfolding ms check_systems_systems by (force simp: build_systems_def)
  then show ?thesis by auto
qed

lemma package_fields_object:
  assumes "py_get (JObj obj) ''dependencies'' (JObj []) = Inr (JObj deps)"
  shows "\<exists>nm ver. package_fields (JObj obj)
           = Inr [(''name'', nm), (''version'', ver),
                  (''dependencies'', JArr (map JStr (map fst deps)))]"
  using assms by (simp add: package_fields_def)

text \<open>
  Claim C8. When the manifest is an object whose dependencies are an object (or are
  absent) and the run in text mode prints its report, the report ends with the heading
  of the dependency list, one line for each of the first five dependency names in the
  order of the manifest, and, exactly when there are more than five, a last line that
  tells how many more.
\<close>

theorem dependency_lines:
  assumes "map_of es ''package.json'' = Some (File (Json (JObj obj)))"
    and "py_get (JObj obj) ''dependencies'' (JObj []) = Inr (JObj deps)"
    and "main False (Dir es) = Inr (Report lines)"
  shows "\<exists>pre. lines =
           pre @ Text (newline # ''dependencies:'')
               # map (\<lambda>k. Fmt ''  - '' (JStr k)) (take 5 (map fst deps))
               @ (if 5 < length deps
                  then [Text (''  ... and '' @ str_nat (length deps - 5) @ '' more'')]
                  else [])"
proof -
  from assms(3) obtain ms where d: "detect_build_system here (Dir es) = Inr ms"
    by (cases "detect_build_system here (Dir es)") (simp_all add: main_def)
  from assms(1) have "(''package.json'', File (Json (JObj obj))) \<in> set es"
    by (rule map_of_SomeD)
  from npm_detected [OF this d] have ne: "ms \<noteq> []" .
  from main_text_report [OF assms(3) d ne] obtain info where
    i: "detect_package_type (Dir es) = Inr info"
    and l: "lines = Text ''Detected build systems:'' # concat (map system_lines ms)
                    @ package_lines info"
    by blast
  from package_fields_object [OF assms(2)] obtain nm ver where
    "package_fields (JObj obj)
       = Inr [(''name'', nm), (''version'', ver),
              (''dependencies'', JArr (map JStr (map fst deps)))]"
    by blast
  with i assms(1) have info: "info = [(''name'', nm), (''version'', ver),
              (''dependencies'', JArr (map JStr (map fst deps)))]"
    by (simp add: detect_package_type_def)
  have "package_lines info =
          (Text (newline # ''Package information:'') # item_lines (''name'', nm)
           @ item_lines (''version'', ver))
          @ Text (newline # ''dependencies:'')
               # map (\<lambda>k. Fmt ''  - '' (JStr k)) (take 5 (map fst deps))
               @ (if 5 < length deps
                  then [Text (''  ... and '' @ str_nat (length deps - 5) @ '' more'')]
                  else [])"
    unfolding info package_lines_def by (simp add: take_map comp_def del: str_nat.simps)
  with l show ?thesis
    by (intro exI [of _ "Text ''Detected build systems:'' # concat (map system_lines ms)
          @ (Text (newline # ''Package information:'') # item_lines (''name'', nm)
           @ item_lines (''version'', ver))"]) (simp del: str_nat.simps)
qed


theorem dependency_lines_witness:
  "map_of [(''package.json'', File (Json (JObj
       [(''name'', JStr ''foo''), (''version'', JStr ''1.0.0''),
        (''dependencies'', JObj [(''a'', JStr ''1''), (''b'', JStr ''2''), (''c'', JStr ''3''),
                                 (''d'', JStr ''4''), (''e'', JStr ''5''), (''f'', JStr ''6'')])])))]
     ''package.json''
     = Some (File (Json (JObj
       [(''name'', JStr ''foo''), (''version'', JStr ''1.0.0''),
        (''dependencies'', JObj [(''a'', JStr ''1''), (''b'', JStr ''2''), (''c'', JStr ''3''),
                                 (''d'', JStr ''4''), (''e'', JStr ''5''), (''f'', JStr ''6'')])])))
   \<and> py_get (JObj
       [(''name'', JStr ''foo''), (''version'', JStr ''1.0.0''),
        (''dependencies'', JObj [(''a'', JStr ''1''), (''b'', JStr ''2''), (''c'', JStr ''3''),
                                 (''d'', JStr ''4''), (''e'', JStr ''5''), (''f'', JStr ''6'')])])
       ''dependencies'' (JObj [])
     = Inr (JObj [(''a'', JStr ''1''), (''b'', JStr ''2''), (''c'', JStr ''3''),
                  (''d'', JStr ''4''), (''e'', JStr ''5''), (''f'', JStr ''6'')])
   \<and> main False (Dir [(''package.json'', File (Json (JObj
       [(''name'', JStr ''foo''), (''version'', JStr ''1.0.0''),
        (''dependencies'', JObj [(''a'', JStr ''1''), (''b'', JStr ''2''), (''c'', JStr ''3''),
                                 (''d'', JStr ''4''), (''e'', JStr ''5''), (''f'', JStr ''6'')])])))])
     = Inr (Report
        [Text ''Detected build systems:'',
         Text (newline # hammer @ '' npm''),
         Text ''  Found files:'',
         Text ''   - package.json'',
         Text (newline # ''Package information:''),
         Fmt ''name: '' (JStr ''foo''),
         Fmt ''version: '' (JStr ''1.0.0''),
         Text (newline # ''dependencies:''),
         Fmt ''  - '' (JStr ''a''), Fmt ''  - '' (JStr ''b''), Fmt ''  - '' (JStr ''c''),
         Fmt ''  - '' (JStr ''d''), Fmt ''  - '' (JStr ''e''),
         Text ''  ... and 1 more''])
   \<and> (\<exists>pre.
        [Text ''Detected build systems:'',
         Text (newline # hammer @ '' npm''),
         Text ''  Found files:'',
         Text ''   - package.json'',
         Text (newline # ''Package information:''),
         Fmt ''name: '' (JStr ''foo''),
         Fmt ''version: '' (JStr ''1.0.0''),
         Text (newline # ''dependencies:''),
         Fmt ''  - '' (JStr ''a''), Fmt ''  - '' (JStr ''b''), Fmt ''  - '' (JStr ''c''),
         Fmt ''  - '' (JStr ''d''), Fmt ''  - '' (JStr ''e''),
         Text ''  ... and 1 more'']
        = pre @ [Text (newline # ''dependencies:''),
                 Fmt ''  - '' (JStr ''a''), Fmt ''  - '' (JStr ''b''), Fmt ''  - '' (JStr ''c''),
                 Fmt ''  - '' (JStr ''d''), Fmt ''  - '' (JStr ''e''),
                 Text ''  ... and 1 more''])"
proof -
  let ?deps = "[(''a'', JStr ''1''), (''b'', JStr ''2''), (''c'', JStr ''3''),
                (''d'', JStr ''4''), (''e'', JStr ''5''), (''f'', JStr ''6'')]"
  let ?obj = "[(''name'', JStr ''foo''), (''version'', JStr ''1.0.0''),
               (''dependencies'', JObj ?deps)]"
  let ?es = "[(''package.json'', File (Json (JObj ?obj)))]"
  let ?lines = "[Text ''Detected build systems:'',
         Text (newline # hammer @ '' npm''),
         Text ''  Found files:'',
         Text ''   - package.json'',
         Text (newline # ''Package information:''),
         Fmt ''name: '' (JStr ''foo''),
         Fmt ''version: '' (JStr ''1.0.0''),
         Text (newline # ''dependencies:''),
         Fmt ''  - '' (JStr ''a''), Fmt ''  - '' (JStr ''b''), Fmt ''  - '' (JStr ''c''),
         Fmt ''  - '' (JStr ''d''), Fmt ''  - '' (JStr ''e''),
         Text ''  ... and 1 more'']"
  have h1: "map_of ?es ''package.json'' = Some (File (Json (JObj ?obj)))"
    by simp
  have h2: "py_get (JObj ?obj) ''dependencies'' (JObj []) = Inr (JObj ?deps)"
    by simp
  have h3: "main False (Dir ?es) = Inr (Report ?lines)"
    by code_simp
  have blk: "Text (newline # ''dependencies:'')
               # map (\<lambda>k. Fmt ''  - '' (JStr k)) (take 5 (map fst ?deps))
               @ (if 5 < length ?deps
                  then [Text (''  ... and '' @ str_nat (length ?deps - 5) @ '' more'')]
                  else [])
             = [Text (newline # ''dependencies:''),
                 Fmt ''  - '' (JStr ''a''), Fmt ''  - '' (JStr ''b''), Fmt ''  - '' (JStr ''c''),
                 Fmt ''  - '' (JStr ''d''), Fmt ''  - '' (JStr ''e''),
                 Text ''  ... and 1 more'']"
    by code_simp
  have c: "\<exists>pre. ?lines = pre @ [Text (newline # ''dependencies:''),
                 Fmt ''  - '' (JStr ''a''), Fmt ''  - '' (JStr ''b''), Fmt ''  - '' (JStr ''c''),
                 Fmt ''  - '' (JStr ''d''), Fmt ''  - '' (JStr ''e''),
                 Text ''  ... and 1 more'']"
    using dependency_lines [OF h1 h2 h3] by (simp only: blk)
  show ?thesis
    by (intro conjI) (rule h1, rule h2, rule h3, rule c)
qed

section \<open>Failures of the scan\<close>

lemma scan_subdirs_error:
  "scan_subdirs subdirs acc = Inl e \<longleftrightarrow> e = PermissionError \<and> (\<exists>p. (p, Denied) \<in> set subdirs)"
proof (induction subdirs acc rule: scan_subdirs.induct)
  case (1 all_files)
  show ?case by simp
next
  case (2 subdir rest all_files)
  obtain p x where sd: "subdir = (p, x)" by (cases subdir)
  show ?case
  proof (cases x)
    case (File c)
    with 2 sd show ?thesis by auto
  next
    case (Dir es)
    with 2 sd show ?thesis by auto
  next
    case Denied
    with sd show ?thesis by auto
  next
    case NoEntry
    with 2 sd show ?thesis by auto
  qed
qed

text \<open>
  The scan fails exactly when the directory is missing, is a file, may not be listed,
  or has an immediate subdirectory that may not be listed.
\<close>

lemma scan_fails_iff:
  "detect_build_system d root = Inl e \<longleftrightarrow>
     root = NoEntry \<and> e = FileNotFoundError
   \<or> (\<exists>c. root = File c) \<and> e = NotADirectoryError
   \<or> root = Denied \<and> e = PermissionError
   \<or> (\<exists>es sub. root = Dir es \<and> (sub, Denied) \<in> set es) \<and> e = PermissionError"
proof (cases root)
  case (Dir es)
  have "(\<exists>p. (p, Denied) \<in> set (map (\<lambda>(n, x). (joinpath d n, x)) es))
        \<longleftrightarrow> (\<exists>sub. (sub, Denied) \<in> set es)"
    by (auto simp: image_iff) force
  then have "scan_subdirs (map (\<lambda>(n, x). (joinpath d n, x)) es)
               (map fst (filter is_file (map (\<lambda>(n, x). (joinpath d n, x)) es))) = Inl e
             \<longleftrightarrow> e = PermissionError \<and> (\<exists>sub. (sub, Denied) \<in> set es)"
    by (simp only: scan_subdirs_error)
  moreover have "detect_build_system d root = Inl e \<longleftrightarrow>
      scan_subdirs (map (\<lambda>(n, x). (joinpath d n, x)) es)
               (map fst (filter is_file (map (\<lambda>(n, x). (joinpath d n, x)) es))) = Inl e"
    using Dir by (simp add: detect_build_system_def collect_files_def split: sum.splits)
  ultimately show ?thesis using Dir by auto
qed (auto simp: detect_build_system_def collect_files_def)

lemma scan_failure_propagates:
  "detect_build_system here cwd = Inl e \<Longrightarrow>
   main args_json cwd = Inl e \<and> exit_status (main args_json cwd) = 1"
  by (simp add: main_def exit_status_def)

lemma nothing_detected_exits_zero:
  "detect_build_system here cwd = Inr [] \<Longrightarrow> exit_status (main args_json cwd) = 0"
  by (simp add: main_def exit_status_def)

lemma detect_only_package_json:
  "detect_build_system here (Dir [(''package.json'', File c)])
     = Inr [\<lparr>system = ''npm'', found_files = [Path False [''package.json'']]\<rparr>]"
proof -
  have "matching_systems build_systems ''package.json'' = [''npm'']"
    by code_simp
  then show ?thesis
    by (simp add: detect_build_system_def collect_files_def check_systems_single)
qed

text \<open>
  Claim C6. The scan fails exactly on the filesystem errors the claim lists, and such a
  failure ends the run with a non-zero status; but a run whose scan succeeds does not
  always end with status 0. For a directory whose only file is a \<^verbatim>\<open>package.json\<close>
  holding the JSON array \<^verbatim>\<open>[]\<close>, the scan succeeds and reports npm, then
  \<^verbatim>\<open>detect_package_type\<close> calls \<^verbatim>\<open>get\<close> on a list, the \<^verbatim>\<open>AttributeError\<close> is not
  caught, and the process ends with status 1 in either output mode.
\<close>

theorem scan_succeeds_run_fails:
  "detect_build_system here (Dir [(''package.json'', File (Json (JArr [])))])
     = Inr [\<lparr>system = ''npm'', found_files = [Path False [''package.json'']]\<rparr>]
   \<and> main True (Dir [(''package.json'', File (Json (JArr [])))]) = Inl AttributeError
   \<and> main False (Dir [(''package.json'', File (Json (JArr [])))]) = Inl AttributeError
   \<and> exit_status (main True (Dir [(''package.json'', File (Json (JArr [])))])) = 1
   \<and> exit_status (main False (Dir [(''package.json'', File (Json (JArr [])))])) = 1"
proof -
  have p: "detect_package_type (Dir [(''package.json'', File (Json (JArr [])))])
           = Inl AttributeError"
    by (simp add: detect_package_type_def package_fields_def)
  show ?thesis
    by (simp add: main_def exit_status_def detect_only_package_json p)
qed

section \<open>Manifests that cannot be loaded\<close>

lemma manifest_absent:
  "map_of es ''package.json'' = None \<Longrightarrow> detect_package_type (Dir es) = Inr []"
  by (simp add: detect_package_type_def)

lemma manifest_malformed:
  "map_of es ''package.json'' = Some (File Malformed) \<Longrightarrow> detect_package_type (Dir es) = Inr []"
  by (simp add: detect_package_type_def)

lemma manifest_malformed_run:
  assumes "map_of es ''package.json'' = Some (File Malformed)"
    and "detect_build_system here (Dir es) = Inr ms"
  shows "\<exists>out. main args_json (Dir es) = Inr out"
  using assms by (simp add: main_def manifest_malformed)

text \<open>
  Claim C5. An absent manifest and a manifest whose text is not a JSON document both
  give an empty dictionary, and the run goes on. But a manifest whose bytes are not text
  in the encoding in use is not well-formed either, and for it \<^verbatim>\<open>json.load\<close> raises
  \<^verbatim>\<open>UnicodeDecodeError\<close>, which the handler for \<^verbatim>\<open>json.JSONDecodeError\<close> does not
  catch: \<^verbatim>\<open>detect_package_type\<close> raises, and the run, whose scan had succeeded, ends
  with status 1 in either output mode.
\<close>

theorem undecodable_manifest_aborts:
  "detect_build_system here (Dir [(''package.json'', File Undecodable)])
     = Inr [\<lparr>system = ''npm'', found_files = [Path False [''package.json'']]\<rparr>]
   \<and> detect_package_type (Dir [(''package.json'', File Undecodable)]) = Inl UnicodeDecodeError
   \<and> main True (Dir [(''package.json'', File Undecodable)]) = Inl UnicodeDecodeError
   \<and> main False (Dir [(''package.json'', File Undecodable)]) = Inl UnicodeDecodeError
   \<and> exit_status (main False (Dir [(''package.json'', File Undecodable)])) = 1
   \<and> detect_package_type (Dir [(''package.json'', File Malformed)]) = Inr []
   \<and> detect_package_type (Dir []) = Inr []"
proof -
  have p: "detect_package_type (Dir [(''package.json'', File Undecodable)])
           = Inl UnicodeDecodeError"
    by (simp add: detect_package_type_def)
  show ?thesis
    by (simp add: main_def exit_status_def detect_only_package_json p manifest_absent
          manifest_malformed)
qed

end
